theory Spec2Isabelle
  imports Main
begin

section \<open>Insertion-ordered dictionaries and the Counter of the standard library\<close>

text \<open>
  The analyzer keeps its frequency table in a \<^verbatim>\<open>collections.Counter\<close>, a \<^verbatim>\<open>dict\<close>
  subclass. A Python dict iterates in insertion order, and \<^verbatim>\<open>most_common\<close> depends on
  that order, so the table is an association list: the position of a key is the moment
  of its first insertion, and a well-formed dict has pairwise distinct keys.
  Counts are Python integers, hence \<^typ>\<open>int\<close>.
\<close>

type_synonym ('k, 'v) dict = "('k \<times> 'v) list"

type_synonym 'w counter = "('w, int) dict"

definition keys :: "('k, 'v) dict \<Rightarrow> 'k list" where
  "keys d = map fst d"

definition dict_values :: "('k, 'v) dict \<Rightarrow> 'v list" where
  "dict_values d = map snd d"

text \<open>\<^verbatim>\<open>d.get(k, default)\<close>; on a Counter, \<^verbatim>\<open>c[k]\<close> is \<^verbatim>\<open>c.get(k, 0)\<close>.\<close>

definition dict_get :: "('k, 'v) dict \<Rightarrow> 'k \<Rightarrow> 'v \<Rightarrow> 'v" where
  "dict_get d k dflt = (case map_of d k of Some v \<Rightarrow> v | None \<Rightarrow> dflt)"

text \<open>\<^verbatim>\<open>d[k] = v\<close>: an existing key keeps its position, a new key goes to the end.\<close>

fun dict_set :: "('k, 'v) dict \<Rightarrow> 'k \<Rightarrow> 'v \<Rightarrow> ('k, 'v) dict" where
  "dict_set [] k v = [(k, v)]"
| "dict_set ((k', v') # d) k v =
     (if k' = k then (k, v) # d else (k', v') # dict_set d k v)"

text \<open>
  \<^verbatim>\<open>_count_elements(mapping, iterable)\<close>, the loop behind \<^verbatim>\<open>Counter(words)\<close>:
  \<^verbatim>\<open>for elem in iterable: mapping[elem] = mapping.get(elem, 0) + 1\<close>.
\<close>

fun count_elements :: "('k, int) dict \<Rightarrow> 'k list \<Rightarrow> ('k, int) dict" where
  "count_elements m [] = m"
| "count_elements m (w # ws) = count_elements (dict_set m w (dict_get m w 0 + 1)) ws"

definition Counter :: "'k list \<Rightarrow> ('k, int) dict" where
  "Counter ws = count_elements [] ws"

text \<open>
  \<^verbatim>\<open>dict.update(other)\<close> stores every item of \<^verbatim>\<open>other\<close> in turn, and
  \<^verbatim>\<open>Counter.update(other)\<close> with a mapping argument adds counts when the receiver is
  non-empty and falls back to \<^verbatim>\<open>dict.update\<close> when it is empty.
\<close>

fun dict_update :: "('k, 'v) dict \<Rightarrow> ('k, 'v) dict \<Rightarrow> ('k, 'v) dict" where
  "dict_update d [] = d"
| "dict_update d ((k, v) # other) = dict_update (dict_set d k v) other"

fun add_counts :: "('k, int) dict \<Rightarrow> ('k, int) dict \<Rightarrow> ('k, int) dict" where
  "add_counts d [] = d"
| "add_counts d ((k, c) # other) = add_counts (dict_set d k (c + dict_get d k 0)) other"

definition counter_update :: "('k, int) dict \<Rightarrow> ('k, int) dict \<Rightarrow> ('k, int) dict" where
  "counter_update d other = (if d \<noteq> [] then add_counts d other else dict_update d other)"

text \<open>
  \<^verbatim>\<open>Counter.most_common(n)\<close> for an integer \<^verbatim>\<open>n\<close> is
  \<^verbatim>\<open>heapq.nlargest(n, self.items(), key=itemgetter(1))\<close>: the first \<^verbatim>\<open>n\<close> items of the
  stable sort by descending count, and no item at all when \<^verbatim>\<open>n\<close> is zero or negative.
  \<^const>\<open>sort_key\<close> is a stable insertion sort; sorting by the negated count gives the
  descending order with ties left in dict order.
\<close>

definition most_common :: "('k, int) dict \<Rightarrow> int \<Rightarrow> ('k \<times> int) list" where
  "most_common d n = take (nat n) (sort_key (\<lambda>item. - snd item) d)"

section \<open>The word counter\<close>

text \<open>
  The counter is generic in the type \<open>'w\<close> of its words: it only hashes and compares
  them. The examples use ASCII strings; the lookup by lowered query takes a word as the
  list of the Unicode code points of a Python \<^verbatim>\<open>str\<close>.
\<close>

record 'w word_counter =
  word_counts :: "'w counter"
  total_words :: int

definition init :: "'w word_counter" where
  "init = \<lparr>word_counts = [], total_words = 0\<rparr>"

text \<open>
  \<^verbatim>\<open>count_words\<close> returns the table and leaves the new object state. On an empty list
  it returns a fresh empty Counter before touching the object.
\<close>

definition count_words :: "'w word_counter \<Rightarrow> 'w list \<Rightarrow> 'w counter \<times> 'w word_counter" where
  "count_words s ws =
     (if ws = [] then ([], s)
      else let s' = s\<lparr>word_counts := Counter ws, total_words := int (length ws)\<rparr>
           in (word_counts s', s'))"

definition get_most_common :: "'w word_counter \<Rightarrow> int \<Rightarrow> ('w \<times> int) list" where
  "get_most_common s n = most_common (word_counts s) n"

definition get_total_unique_words :: "'w word_counter \<Rightarrow> int" where
  "get_total_unique_words s = int (length (word_counts s))"

definition get_total_words :: "'w word_counter \<Rightarrow> int" where
  "get_total_words s = total_words s"

text \<open>
  \<^verbatim>\<open>filter_by_frequency\<close> walks the items in dict order and stores the selected ones in
  a new dict; \<^verbatim>\<open>max_freq\<close> is \<^verbatim>\<open>None\<close> or an integer.
\<close>

fun filter_loop :: "int \<Rightarrow> int option \<Rightarrow> 'w counter \<Rightarrow> 'w counter \<Rightarrow> 'w counter" where
  "filter_loop min_freq max_freq filtered_words [] = filtered_words"
| "filter_loop min_freq max_freq filtered_words ((word, count) # items) =
     filter_loop min_freq max_freq
       (if count \<ge> min_freq then
          (if (case max_freq of None \<Rightarrow> True | Some m \<Rightarrow> count \<le> m)
           then dict_set filtered_words word count else filtered_words)
        else filtered_words)
       items"

definition filter_by_frequency :: "'w word_counter \<Rightarrow> int \<Rightarrow> int option \<Rightarrow> 'w counter" where
  "filter_by_frequency s min_freq max_freq = filter_loop min_freq max_freq [] (word_counts s)"

text \<open>
  \<^verbatim>\<open>merge_counts\<close> does nothing when the other table is empty. The other counter is
  passed by value: when both are one object, the loop of \<^verbatim>\<open>Counter.update\<close> reads
  each count once, before it overwrites it, and the result is the same.
\<close>

definition merge_counts :: "'w word_counter \<Rightarrow> 'w word_counter \<Rightarrow> 'w word_counter" where
  "merge_counts s other =
     (if word_counts other \<noteq> [] then
        s\<lparr>word_counts := counter_update (word_counts s) (word_counts other),
          total_words := total_words s + total_words other\<rparr>
      else s)"

definition clear :: "'w word_counter \<Rightarrow> 'w word_counter" where
  "clear s = s\<lparr>word_counts := [], total_words := 0\<rparr>"













text \<open>
  The states of a counter object: the constructor, then any sequence of the three
  mutating methods, where the argument of \<^verbatim>\<open>merge_counts\<close> is a counter object too.
\<close>

inductive reachable :: "'w word_counter \<Rightarrow> bool" where
  reachable_init: "reachable init"
| reachable_count_words: "reachable s \<Longrightarrow> reachable (snd (count_words s ws))"
| reachable_merge_counts:
    "reachable s \<Longrightarrow> reachable other \<Longrightarrow> reachable (merge_counts s other)"
| reachable_clear: "reachable s \<Longrightarrow> reachable (clear s)"

definition total_inv :: "'w word_counter \<Rightarrow> bool" where
  "total_inv s \<longleftrightarrow> total_words s = sum_list (dict_values (word_counts s))"

text \<open>A well-formed table: a dict has no key twice, and no count is negative.\<close>

definition wf_counter :: "'w word_counter \<Rightarrow> bool" where
  "wf_counter s \<longleftrightarrow> distinct (keys (word_counts s)) \<and> (\<forall>c \<in> set (dict_values (word_counts s)). 0 \<le> c)"

section \<open>The part-of-speech filter\<close>

text \<open>
  The tagger \<^verbatim>\<open>nltk.pos_tag\<close> is an external library: it is a parameter of the model,
  returning the tagged words or \<open>None\<close> when it raises.
\<close>

record pos_filter =
  enabled :: bool
  allowed_pos_tags :: "string set"

type_synonym tagger = "string list \<Rightarrow> (string \<times> string) list option"

definition POSFilter :: "bool \<Rightarrow> pos_filter" where
  "POSFilter e = \<lparr>enabled = e, allowed_pos_tags = {}\<rparr>"

definition set_allowed_pos_tags :: "pos_filter \<Rightarrow> string list \<Rightarrow> pos_filter" where
  "set_allowed_pos_tags f pos_tags = f\<lparr>allowed_pos_tags := set pos_tags\<rparr>"

definition disable_filter :: "pos_filter \<Rightarrow> pos_filter" where
  "disable_filter f = f\<lparr>enabled := False, allowed_pos_tags := {}\<rparr>"

definition filter_by_pos :: "tagger \<Rightarrow> pos_filter \<Rightarrow> string list \<Rightarrow> string list" where
  "filter_by_pos pos_tag f words =
     (if \<not> enabled f \<or> allowed_pos_tags f = {} then words
      else if words = [] then []
      else (case pos_tag words of
              Some pos_tagged \<Rightarrow>
                map fst (filter (\<lambda>(word, pos). pos \<in> allowed_pos_tags f) pos_tagged)
            | None \<Rightarrow> words))"

section \<open>The file loader\<close>

text \<open>
  The world outside is the input of the model. A path is missing (\<^verbatim>\<open>os.path.exists\<close>
  is false), or exists without being a directory, or is a directory with its entries;
  an entry has a name and what opening and reading it gives under either encoding: the
  text, a \<^verbatim>\<open>UnicodeDecodeError\<close>, or another exception. \<^verbatim>\<open>Path.glob("*.txt")\<close> keeps
  the entries of a directory whose name ends in \<^verbatim>\<open>.txt\<close>, comparing letters exactly
  or, on a platform whose file names ignore case, without regard to case; it yields
  nothing for a path that is not a directory. Every \<^verbatim>\<open>print\<close> writes a message to
  standard output, which can refuse it (a \<^verbatim>\<open>UnicodeEncodeError\<close> for a name or a text
  the console cannot encode): whether a message can be printed is an input too.
\<close>

datatype read_result = Content string | UnicodeDecodeError | OtherError string

record dir_entry =
  entry_name :: string
  read_utf8 :: read_result
  read_gbk :: read_result

datatype path_status = NoSuchPath | NotADirectory | Directory "dir_entry list"

datatype message = Loaded string | LoadedGBK string | LoadFailed string

record world =
  status :: "string \<Rightarrow> path_status"
  case_sensitive :: bool
  can_print :: "message \<Rightarrow> bool"

datatype error = FileNotFoundError string | PrintError message

record file_loader =
  loaded_files :: "(string, string) dict"

definition fold_case :: "char \<Rightarrow> char" where
  "fold_case c =
     (if 65 \<le> (of_char c :: nat) \<and> (of_char c :: nat) \<le> 90
      then char_of ((of_char c :: nat) + 32) else c)"

definition matches_txt :: "bool \<Rightarrow> string \<Rightarrow> bool" where
  "matches_txt sensitive n \<longleftrightarrow>
     4 \<le> length n \<and>
     (if sensitive then drop (length n - 4) n = ''.txt''
      else map fold_case (drop (length n - 4) n) = ''.txt'')"

definition glob_txt :: "world \<Rightarrow> string \<Rightarrow> dir_entry list" where
  "glob_txt w directory =
     (case status w directory of
        Directory entries \<Rightarrow> filter (\<lambda>e. matches_txt (case_sensitive w) (entry_name e)) entries
      | _ \<Rightarrow> [])"

text \<open>
  The handler of a failed load prints the failure message; when that \<^verbatim>\<open>print\<close> fails
  too, its exception leaves the function, since no handler encloses a handler.
\<close>

definition report_failure ::
  "(message \<Rightarrow> bool) \<Rightarrow> string \<Rightarrow> (string, string) dict \<Rightarrow> message list \<Rightarrow>
   error + ((string, string) dict \<times> message list)" where
  "report_failure printable n txt_files msgs =
     (if printable (LoadFailed n) then Inr (txt_files, msgs @ [LoadFailed n])
      else Inl (PrintError (LoadFailed n)))"

text \<open>
  One pass of the loop body for the entry \<open>e\<close>. The text is stored before the success
  message is printed, so a text whose success message cannot be printed stays in the
  result, with a failure message.
\<close>

definition load_one ::
  "(message \<Rightarrow> bool) \<Rightarrow> (string, string) dict \<Rightarrow> message list \<Rightarrow> dir_entry \<Rightarrow>
   error + ((string, string) dict \<times> message list)" where
  "load_one printable txt_files msgs e =
     (case read_utf8 e of
        Content c \<Rightarrow>
          (if printable (Loaded (entry_name e))
           then Inr (dict_set txt_files (entry_name e) c, msgs @ [Loaded (entry_name e)])
           else report_failure printable (entry_name e)
                  (dict_set txt_files (entry_name e) c) msgs)
      | UnicodeDecodeError \<Rightarrow>
          (case read_gbk e of
             Content c \<Rightarrow>
               (if printable (LoadedGBK (entry_name e))
                then Inr (dict_set txt_files (entry_name e) c, msgs @ [LoadedGBK (entry_name e)])
                else report_failure printable (entry_name e)
                       (dict_set txt_files (entry_name e) c) msgs)
           | _ \<Rightarrow> report_failure printable (entry_name e) txt_files msgs)
      | OtherError _ \<Rightarrow> report_failure printable (entry_name e) txt_files msgs)"

fun load_loop ::
  "(message \<Rightarrow> bool) \<Rightarrow> (string, string) dict \<Rightarrow> message list \<Rightarrow> dir_entry list \<Rightarrow>
   error + ((string, string) dict \<times> message list)" where
  "load_loop printable txt_files msgs [] = Inr (txt_files, msgs)"
| "load_loop printable txt_files msgs (e # es) =
     (case load_one printable txt_files msgs e of
        Inl err \<Rightarrow> Inl err
      | Inr (txt_files', msgs') \<Rightarrow> load_loop printable txt_files' msgs' es)"

definition load_txt_files ::
  "world \<Rightarrow> file_loader \<Rightarrow> string \<Rightarrow>
   error + ((string, string) dict \<times> message list \<times> file_loader)" where
  "load_txt_files w loader directory =
     (if status w directory = NoSuchPath then Inl (FileNotFoundError directory)
      else (case load_loop (can_print w) [] [] (glob_txt w directory) of
              Inl err \<Rightarrow> Inl err
            | Inr (txt_files, msgs) \<Rightarrow>
                Inr (txt_files, msgs, loader\<lparr>loaded_files := txt_files\<rparr>)))"

text \<open>
  What an entry contributes: its UTF-8 text, else its GBK text when UTF-8 decoding
  failed, else nothing.
\<close>

definition decoded :: "dir_entry \<Rightarrow> string option" where
  "decoded e =
     (case read_utf8 e of
        Content c \<Rightarrow> Some c
      | UnicodeDecodeError \<Rightarrow> (case read_gbk e of Content c \<Rightarrow> Some c | _ \<Rightarrow> None)
      | OtherError _ \<Rightarrow> None)"

text \<open>
  The message the loop prints first for an entry, and the item it stores for it, if
  any.
\<close>

definition message_of :: "dir_entry \<Rightarrow> message" where
  "message_of e =
     (case read_utf8 e of
        Content c \<Rightarrow> Loaded (entry_name e)
      | UnicodeDecodeError \<Rightarrow>
          (case read_gbk e of
             Content c \<Rightarrow> LoadedGBK (entry_name e)
           | _ \<Rightarrow> LoadFailed (entry_name e))
      | OtherError _ \<Rightarrow> LoadFailed (entry_name e))"

definition item_of :: "dir_entry \<Rightarrow> (string \<times> string) option" where
  "item_of e = map_option (\<lambda>c. (entry_name e, c)) (decoded e)"

section \<open>Order of first occurrence\<close>

text \<open>
  The words of a list in the order of their first occurrence, and the position of the
  first occurrence of a word: the vocabulary in which the order of a Counter's keys and
  the stability of \<^verbatim>\<open>most_common\<close> are stated.
\<close>


fun first_occurrences :: "'a list \<Rightarrow> 'a list" where
  "first_occurrences [] = []"
| "first_occurrences (x # xs) = x # filter (\<lambda>y. y \<noteq> x) (first_occurrences xs)"

fun first_index :: "'a list \<Rightarrow> 'a \<Rightarrow> nat" where
  "first_index [] w = 0"
| "first_index (x # xs) w = (if x = w then 0 else Suc (first_index xs w))"

section \<open>Basic facts about dictionaries\<close>

lemma map_of_dict_set: "map_of (dict_set d k v) = (map_of d)(k \<mapsto> v)"
  by (induction d) (auto simp: fun_eq_iff)

lemma dict_get_dict_set:
  "dict_get (dict_set d k v) k' dflt = (if k' = k then v else dict_get d k' dflt)"
  by (simp add: dict_get_def map_of_dict_set)

lemma keys_dict_set:
  "keys (dict_set d k v) = (if k \<in> set (keys d) then keys d else keys d @ [k])"
  by (induction d) (force simp: keys_def)+

lemma distinct_keys_dict_set: "distinct (keys d) \<Longrightarrow> distinct (keys (dict_set d k v))"
  by (simp add: keys_dict_set)

lemma sum_values_dict_set:
  "sum_list (dict_values (dict_set d k v)) = sum_list (dict_values d) + v - dict_get d k 0"
  for v :: int
  by (induction d) (auto simp: dict_values_def dict_get_def)

lemma sum_count_elements:
  "sum_list (dict_values (count_elements m ws)) = sum_list (dict_values m) + int (length ws)"
  by (induction ws arbitrary: m) (simp_all add: sum_values_dict_set)

lemma sum_Counter: "sum_list (dict_values (Counter ws)) = int (length ws)"
  using sum_count_elements [of "[]" ws] by (simp add: Counter_def dict_values_def)

section \<open>The table built from a token list\<close>

lemma keys_count_elements:
  "keys (count_elements m ws) =
     keys m @ filter (\<lambda>w. w \<notin> set (keys m)) (first_occurrences ws)"
proof (induction ws arbitrary: m)
  case Nil
  show ?case by simp
next
  case (Cons w ws)
  show ?case
  proof (cases "w \<in> set (keys m)")
    case True
    then have "\<And>x. (x \<noteq> w \<and> x \<notin> set (keys m)) = (x \<notin> set (keys m))" by auto
    with True show ?thesis by (simp add: Cons.IH keys_dict_set)
  next
    case False
    then show ?thesis by (simp add: Cons.IH keys_dict_set conj_commute)
  qed
qed

lemma keys_Counter: "keys (Counter ws) = first_occurrences ws"
  using keys_count_elements [of "[]" ws] by (simp add: Counter_def keys_def)

lemma set_first_occurrences: "set (first_occurrences ws) = set ws"
  by (induction ws) auto

lemma distinct_first_occurrences: "distinct (first_occurrences ws)"
  by (induction ws) (auto simp: set_first_occurrences)

lemma distinct_keys_Counter: "distinct (keys (Counter ws))"
  by (simp add: keys_Counter distinct_first_occurrences)

lemma dict_get_count_elements:
  "dict_get (count_elements m ws) w 0 = dict_get m w 0 + int (count_list ws w)"
  by (induction ws arbitrary: m) (simp_all add: dict_get_dict_set)

lemma map_of_count_elements_None:
  "(map_of (count_elements m ws) w = None) = (map_of m w = None \<and> w \<notin> set ws)"
  by (induction ws arbitrary: m) (auto simp: map_of_dict_set)

lemma map_of_Counter:
  "map_of (Counter ws) w = (if w \<in> set ws then Some (int (count_list ws w)) else None)"
proof (cases "w \<in> set ws")
  case False
  then show ?thesis using map_of_count_elements_None [of "[]" ws w] by (simp add: Counter_def)
next
  case True
  then obtain c where c: "map_of (Counter ws) w = Some c"
    using map_of_count_elements_None [of "[]" ws w] by (auto simp: Counter_def)
  have "dict_get (Counter ws) w 0 = int (count_list ws w)"
    using dict_get_count_elements [of "[]" ws w] by (simp add: Counter_def dict_get_def)
  with c True show ?thesis by (simp add: dict_get_def)
qed

lemma first_index_sorted:
  "sorted_wrt (\<lambda>a b. first_index ws a < first_index ws b) (first_occurrences ws)"
proof (induction ws)
  case Nil
  show ?case by simp
next
  case (Cons x xs)
  have "sorted_wrt (\<lambda>a b. first_index xs a < first_index xs b)
          (filter (\<lambda>y. y \<noteq> x) (first_occurrences xs))"
    using Cons.IH by (rule sorted_wrt_filter)
  then have "sorted_wrt (\<lambda>a b. first_index (x # xs) a < first_index (x # xs) b)
          (filter (\<lambda>y. y \<noteq> x) (first_occurrences xs))"
    by (rule sorted_wrt_mono_rel [rotated]) auto
  then show ?case by auto
qed

lemma insort_key_tie_order:
  assumes "sorted_wrt (\<lambda>p q. f p < f q \<or> (f p = f q \<and> g p < g q)) ys"
    and "\<forall>y \<in> set ys. g x < g y"
  shows "sorted_wrt (\<lambda>p q. f p < f q \<or> (f p = f q \<and> g p < (g q :: nat))) (insort_key f x ys)"
  using assms
proof (induction ys)
  case Nil
  show ?case by simp
next
  case (Cons y ys)
  show ?case
  proof (cases "f x \<le> f y")
    case True
    with Cons.prems show ?thesis by (auto simp: less_le)
  next
    case False
    with Cons show ?thesis by (auto simp: set_insort_key)
  qed
qed

lemma sort_key_tie_order:
  "sorted_wrt (\<lambda>p q. g p < (g q :: nat)) xs \<Longrightarrow>
   sorted_wrt (\<lambda>p q. f p < f q \<or> (f p = f q \<and> g p < g q)) (sort_key f xs)"
  by (induction xs) (auto intro!: insort_key_tie_order)

lemma word_counts_built: "word_counts (snd (count_words init ws)) = Counter ws"
  by (simp add: count_words_def init_def Counter_def)

lemma Counter_item:
  assumes "p \<in> set (Counter ws)"
  shows "fst p \<in> set ws \<and> snd p = int (count_list ws (fst p))"
proof -
  have "distinct (map fst (Counter ws))"
    using distinct_keys_Counter [of ws] by (simp add: keys_def)
  with assms have "map_of (Counter ws) (fst p) = Some (snd p)" by simp
  then show ?thesis by (simp add: map_of_Counter split: if_splits)
qed

lemma length_Counter: "length (Counter ws) = card (set ws)"
proof -
  have "length (Counter ws) = length (keys (Counter ws))" by (simp add: keys_def)
  also have "\<dots> = card (set (first_occurrences ws))"
    by (simp add: keys_Counter distinct_card distinct_first_occurrences)
  finally show ?thesis by (simp add: set_first_occurrences)
qed

lemma most_common_Counter_order:
  "sorted_wrt (\<lambda>p q. snd q < snd p \<or>
       (snd p = snd q \<and> first_index ws (fst p) < first_index ws (fst q)))
     (most_common (Counter ws) n)"
proof -
  have "sorted_wrt (\<lambda>a b. first_index ws a < first_index ws b) (map fst (Counter ws))"
    using first_index_sorted [of ws] keys_Counter [of ws] by (simp add: keys_def)
  then have "sorted_wrt (\<lambda>p q. first_index ws (fst p) < first_index ws (fst q)) (Counter ws)"
    by (simp add: sorted_wrt_map)
  then have "sorted_wrt (\<lambda>p q. - snd p < - snd q \<or>
       (- snd p = - snd q \<and> first_index ws (fst p) < first_index ws (fst q)))
     (sort_key (\<lambda>item. - snd item) (Counter ws))"
    by (rule sort_key_tie_order [where f = "\<lambda>item. - snd item"])
  then have "sorted_wrt (\<lambda>p q. snd q < snd p \<or>
       (snd p = snd q \<and> first_index ws (fst p) < first_index ws (fst q)))
     (sort_key (\<lambda>item. - snd item) (Counter ws))"
    by simp
  then show ?thesis
    unfolding most_common_def by (rule sorted_wrt_take)
qed

section \<open>Merging tables\<close>

lemma keys_simps:
  "keys [] = []" "keys ((k, v) # d) = k # keys d" "keys (d @ d') = keys d @ keys d'"
  by (simp_all add: keys_def)

lemma dict_values_simps:
  "dict_values [] = []" "dict_values ((k, v) # d) = v # dict_values d"
  by (simp_all add: dict_values_def)

lemma dict_get_simps:
  "dict_get [] k dflt = dflt"
  "dict_get ((k', v) # d) k dflt = (if k = k' then v else dict_get d k dflt)"
  by (simp_all add: dict_get_def)

lemma dict_set_new: "k \<notin> set (keys d) \<Longrightarrow> dict_set d k v = d @ [(k, v)]"
  by (induction d) (auto simp: keys_def)

lemma dict_get_absent: "k \<notin> set (keys d) \<Longrightarrow> dict_get d k dflt = dflt"
  by (induction d) (auto simp: keys_def dict_get_def)

lemma dict_update_append:
  "distinct (keys other) \<Longrightarrow> set (keys d) \<inter> set (keys other) = {} \<Longrightarrow>
   dict_update d other = d @ other"
proof (induction other arbitrary: d)
  case Nil
  show ?case by simp
next
  case (Cons item other)
  obtain k v where item: "item = (k, v)" by (cases item)
  from Cons.prems item have k: "k \<notin> set (keys d)" and d: "distinct (keys other)"
    and kk: "k \<notin> set (keys other)" and dj: "set (keys d) \<inter> set (keys other) = {}"
    by (auto simp: keys_simps)
  from kk dj have "set (keys (d @ [(k, v)])) \<inter> set (keys other) = {}"
    by (auto simp: keys_simps)
  with d have "dict_update (d @ [(k, v)]) other = (d @ [(k, v)]) @ other"
    by (rule Cons.IH)
  with k item show ?case by (simp add: dict_set_new)
qed

lemma dict_update_empty: "distinct (keys other) \<Longrightarrow> dict_update [] other = other"
  using dict_update_append [of other "[]"] by (simp add: keys_simps)

lemma dict_get_add_counts:
  "distinct (keys other) \<Longrightarrow>
   dict_get (add_counts d other) w 0 = dict_get d w 0 + dict_get other w 0"
proof (induction other arbitrary: d)
  case Nil
  show ?case by (simp add: dict_get_simps)
next
  case (Cons item other)
  obtain k c where item: "item = (k, c)" by (cases item)
  from Cons.prems item have d: "distinct (keys other)" and kk: "k \<notin> set (keys other)"
    by (auto simp: keys_simps)
  have step: "dict_get (add_counts (dict_set d k (c + dict_get d k 0)) other) w 0 =
      dict_get (dict_set d k (c + dict_get d k 0)) w 0 + dict_get other w 0"
    using d by (rule Cons.IH)
  show ?case
  proof (cases "w = k")
    case True
    with kk have "dict_get other w 0 = 0" by (simp add: dict_get_absent)
    with True step item show ?thesis by (simp add: dict_get_dict_set dict_get_simps)
  next
    case False
    with step item show ?thesis by (simp add: dict_get_dict_set dict_get_simps)
  qed
qed

lemma dict_get_counter_update:
  assumes "distinct (keys other)"
  shows "dict_get (counter_update d other) w 0 = dict_get d w 0 + dict_get other w 0"
proof (cases "d = []")
  case True
  with assms show ?thesis by (simp add: counter_update_def dict_update_empty dict_get_simps)
next
  case False
  with assms show ?thesis by (simp add: counter_update_def dict_get_add_counts)
qed


lemma distinct_keys_add_counts:
  "distinct (keys d) \<Longrightarrow> distinct (keys (add_counts d other))"
proof (induction other arbitrary: d)
  case Nil
  then show ?case by simp
next
  case (Cons item other)
  obtain k c where item: "item = (k, c)" by (cases item)
  from Cons.prems have "distinct (keys (dict_set d k (c + dict_get d k 0)))"
    by (rule distinct_keys_dict_set)
  then have "distinct (keys (add_counts (dict_set d k (c + dict_get d k 0)) other))"
    by (rule Cons.IH)
  with item show ?case by simp
qed

lemma distinct_keys_counter_update:
  assumes "distinct (keys d)" and "distinct (keys other)"
  shows "distinct (keys (counter_update d other))"
proof (cases "d = []")
  case True
  with assms(2) show ?thesis by (simp add: counter_update_def dict_update_empty)
next
  case False
  with assms(1) show ?thesis by (simp add: counter_update_def distinct_keys_add_counts)
qed

lemma sum_add_counts:
  "sum_list (dict_values (add_counts d other)) =
     sum_list (dict_values d) + sum_list (dict_values other)"
proof (induction other arbitrary: d)
  case Nil
  show ?case by (simp add: dict_values_simps)
next
  case (Cons item other)
  obtain k c where item: "item = (k, c)" by (cases item)
  have "sum_list (dict_values (add_counts (dict_set d k (c + dict_get d k 0)) other)) =
      sum_list (dict_values (dict_set d k (c + dict_get d k 0))) + sum_list (dict_values other)"
    by (rule Cons.IH)
  with item show ?case by (simp add: sum_values_dict_set dict_values_simps)
qed

lemma sum_counter_update:
  assumes "distinct (keys other)"
  shows "sum_list (dict_values (counter_update d other)) =
     sum_list (dict_values d) + sum_list (dict_values other)"
proof (cases "d = []")
  case True
  with assms show ?thesis by (simp add: counter_update_def dict_update_empty dict_values_simps)
next
  case False
  then show ?thesis by (simp add: counter_update_def sum_add_counts)
qed

section \<open>Invariants of the reachable states\<close>

lemma dict_get_nonneg:
  assumes "\<forall>c \<in> set (dict_values d). 0 \<le> c"
  shows "0 \<le> dict_get d k (0::int)"
  using assms by (induction d) (auto simp: dict_values_simps dict_get_simps)

lemma values_dict_set_subset:
  "set (dict_values (dict_set d k v)) \<subseteq> insert v (set (dict_values d))"
proof (induction d)
  case Nil
  show ?case by (simp add: dict_values_simps)
next
  case (Cons item d)
  obtain k' v' where item: "item = (k', v')" by (cases item)
  show ?case
  proof (cases "k' = k")
    case True
    with item show ?thesis by (auto simp: dict_values_simps)
  next
    case False
    with item Cons.IH show ?thesis by (auto simp: dict_values_simps)
  qed
qed

lemma nonneg_dict_set:
  assumes "\<forall>c \<in> set (dict_values d). 0 \<le> c" and "0 \<le> v"
  shows "\<forall>c \<in> set (dict_values (dict_set d k v)). 0 \<le> (c::int)"
proof
  fix c assume "c \<in> set (dict_values (dict_set d k v))"
  with values_dict_set_subset [of d k v] have "c = v \<or> c \<in> set (dict_values d)" by blast
  with assms show "0 \<le> c" by blast
qed

lemma nonneg_add_counts:
  "\<forall>c \<in> set (dict_values d). 0 \<le> c \<Longrightarrow> \<forall>c \<in> set (dict_values other). 0 \<le> c \<Longrightarrow>
   \<forall>c \<in> set (dict_values (add_counts d other)). 0 \<le> c"
proof (induction other arbitrary: d)
  case Nil
  then show ?case by simp
next
  case (Cons item other)
  obtain k c where item: "item = (k, c)" by (cases item)
  from Cons.prems(2) item have c: "0 \<le> c" and rest: "\<forall>c \<in> set (dict_values other). 0 \<le> c"
    by (simp_all add: dict_values_simps)
  from Cons.prems(1) have "0 \<le> dict_get d k 0" by (rule dict_get_nonneg)
  with c have "0 \<le> c + dict_get d k 0" by simp
  with Cons.prems(1) have "\<forall>x \<in> set (dict_values (dict_set d k (c + dict_get d k 0))). 0 \<le> x"
    by (rule nonneg_dict_set)
  then have "\<forall>x \<in> set (dict_values (add_counts (dict_set d k (c + dict_get d k 0)) other)). 0 \<le> x"
    using rest by (rule Cons.IH)
  with item show ?case by simp
qed

lemma nonneg_counter_update:
  assumes "\<forall>c \<in> set (dict_values d). 0 \<le> c" and "\<forall>c \<in> set (dict_values other). 0 \<le> c"
    and "distinct (keys other)"
  shows "\<forall>c \<in> set (dict_values (counter_update d other)). 0 \<le> c"
proof (cases "d = []")
  case True
  with assms(2,3) show ?thesis by (simp add: counter_update_def dict_update_empty)
next
  case False
  with nonneg_add_counts [OF assms(1,2)] show ?thesis by (simp add: counter_update_def)
qed

lemma nonneg_Counter: "\<forall>c \<in> set (dict_values (Counter ws)). 0 \<le> c"
proof
  fix c assume "c \<in> set (dict_values (Counter ws))"
  then obtain p where "p \<in> set (Counter ws)" and "c = snd p"
    by (auto simp: dict_values_def)
  with Counter_item [of p ws] show "0 \<le> c" by simp
qed

lemma wf_init: "wf_counter init"
  by (simp add: wf_counter_def init_def keys_simps dict_values_simps)

lemma wf_clear: "wf_counter (clear s)"
  by (simp add: wf_counter_def clear_def keys_simps dict_values_simps)

lemma wf_count_words: "wf_counter s \<Longrightarrow> wf_counter (snd (count_words s ws))"
proof (cases "ws = []")
  case True
  then show "wf_counter s \<Longrightarrow> ?thesis" by (simp add: count_words_def)
next
  case False
  have "wf_counter (s\<lparr>word_counts := Counter ws, total_words := int (length ws)\<rparr>)"
    using distinct_keys_Counter [of ws] nonneg_Counter [of ws] by (simp add: wf_counter_def)
  with False show ?thesis by (simp add: count_words_def)
qed

lemma wf_merge_counts:
  assumes "wf_counter s" and "wf_counter other"
  shows "wf_counter (merge_counts s other)"
proof (cases "word_counts other = []")
  case True
  with assms(1) show ?thesis by (simp add: merge_counts_def)
next
  case False
  have "distinct (keys (counter_update (word_counts s) (word_counts other)))"
    using assms by (simp add: wf_counter_def distinct_keys_counter_update)
  moreover have "\<forall>c \<in> set (dict_values (counter_update (word_counts s) (word_counts other))). 0 \<le> c"
    using assms by (intro nonneg_counter_update) (simp_all add: wf_counter_def)
  ultimately show ?thesis using False by (simp add: merge_counts_def wf_counter_def)
qed

lemma reachable_wf: "reachable s \<Longrightarrow> wf_counter s"
  by (induction rule: reachable.induct)
     (simp_all add: wf_init wf_clear wf_count_words wf_merge_counts)


section \<open>Keys after a merge, and the filter loop\<close>

lemma set_keys_add_counts:
  "set (keys (add_counts d other)) = set (keys d) \<union> set (keys other)"
proof (induction other arbitrary: d)
  case Nil
  show ?case by (simp add: keys_simps)
next
  case (Cons item other)
  obtain k c where item: "item = (k, c)" by (cases item)
  have "set (keys (dict_set d k (c + dict_get d k 0))) = insert k (set (keys d))"
    by (auto simp: keys_dict_set)
  with Cons.IH [of "dict_set d k (c + dict_get d k 0)"] item show ?case
    by (auto simp: keys_simps)
qed

lemma set_keys_counter_update:
  assumes "distinct (keys other)"
  shows "set (keys (counter_update d other)) = set (keys d) \<union> set (keys other)"
proof (cases "d = []")
  case True
  with assms show ?thesis by (simp add: counter_update_def dict_update_empty keys_simps)
next
  case False
  then show ?thesis by (simp add: counter_update_def set_keys_add_counts)
qed

lemma map_of_via_get:
  "map_of d w = (if w \<in> set (keys d) then Some (dict_get d w 0) else None)"
  by (induction d) (auto simp: keys_simps dict_get_simps)

lemma filter_loop_append:
  "distinct (keys items) \<Longrightarrow> set (keys acc) \<inter> set (keys items) = {} \<Longrightarrow>
   filter_loop min_freq max_freq acc items =
     acc @ filter (\<lambda>(word, count). min_freq \<le> count \<and> (case max_freq of None \<Rightarrow> True | Some m \<Rightarrow> count \<le> m)) items"
proof (induction items arbitrary: acc)
  case Nil
  show ?case by simp
next
  case (Cons item items)
  obtain w c where item: "item = (w, c)" by (cases item)
  from Cons.prems item have w: "w \<notin> set (keys acc)" and d: "distinct (keys items)"
    and ww: "w \<notin> set (keys items)" and dj: "set (keys acc) \<inter> set (keys items) = {}"
    by (auto simp: keys_simps)
  show ?case
  proof (cases "min_freq \<le> c \<and> (case max_freq of None \<Rightarrow> True | Some m \<Rightarrow> c \<le> m)")
    case True
    from ww dj have "set (keys (acc @ [(w, c)])) \<inter> set (keys items) = {}"
      by (auto simp: keys_simps)
    with d have "filter_loop min_freq max_freq (acc @ [(w, c)]) items =
        (acc @ [(w, c)]) @ filter (\<lambda>(word, count). min_freq \<le> count \<and> (case max_freq of None \<Rightarrow> True | Some m \<Rightarrow> count \<le> m)) items"
      by (rule Cons.IH)
    with True w item show ?thesis by (simp add: dict_set_new)
  next
    case False
    from d dj have "filter_loop min_freq max_freq acc items =
        acc @ filter (\<lambda>(word, count). min_freq \<le> count \<and> (case max_freq of None \<Rightarrow> True | Some m \<Rightarrow> count \<le> m)) items"
      by (rule Cons.IH)
    with False item show ?thesis by auto
  qed
qed

section \<open>The running total\<close>

lemma set_keys_Counter: "set (keys (Counter ws)) = set ws"
  by (simp add: keys_Counter set_first_occurrences)

lemma dict_get_Counter: "dict_get (Counter ws) w 0 = int (count_list ws w)"
  using dict_get_count_elements [of "[]" ws w] by (simp add: Counter_def dict_get_simps)

lemma count_words_nonempty:
  "ws \<noteq> [] \<Longrightarrow>
   count_words s ws = (Counter ws, s\<lparr>word_counts := Counter ws, total_words := int (length ws)\<rparr>)"
  by (simp add: count_words_def)

lemma total_inv_init: "total_inv init"
  by (simp add: total_inv_def init_def dict_values_simps)

lemma total_inv_clear: "total_inv (clear s)"
  by (simp add: total_inv_def clear_def dict_values_simps)

lemma total_inv_count_words: "total_inv s \<Longrightarrow> total_inv (snd (count_words s ws))"
  by (cases "ws = []") (simp_all add: count_words_def total_inv_def sum_Counter)

lemma total_inv_merge_counts:
  assumes "total_inv s" and "total_inv other" and "distinct (keys (word_counts other))"
  shows "total_inv (merge_counts s other)"
proof (cases "word_counts other = []")
  case True
  with assms(1) show ?thesis by (simp add: merge_counts_def)
next
  case False
  with assms show ?thesis by (simp add: merge_counts_def total_inv_def sum_counter_update)
qed

lemma reachable_total_inv: "reachable s \<Longrightarrow> total_inv s"
proof (induction rule: reachable.induct)
  case reachable_init
  show ?case by (rule total_inv_init)
next
  case (reachable_count_words s ws)
  then show ?case by (simp add: total_inv_count_words)
next
  case (reachable_merge_counts s other)
  from reachable_merge_counts(2) have "distinct (keys (word_counts other))"
    using reachable_wf [of other] by (simp add: wf_counter_def)
  with reachable_merge_counts show ?case by (simp add: total_inv_merge_counts)
next
  case (reachable_clear s)
  show ?case by (rule total_inv_clear)
qed

lemma dict_get_merge_counts:
  assumes "distinct (keys (word_counts other))"
  shows "dict_get (word_counts (merge_counts s other)) w 0 =
           dict_get (word_counts s) w 0 + dict_get (word_counts other) w 0"
proof (cases "word_counts other = []")
  case True
  then show ?thesis by (simp add: merge_counts_def dict_get_simps)
next
  case False
  with assms show ?thesis by (simp add: merge_counts_def dict_get_counter_update)
qed

lemma set_keys_merge_counts:
  assumes "distinct (keys (word_counts other))"
  shows "set (keys (word_counts (merge_counts s other))) =
           set (keys (word_counts s)) \<union> set (keys (word_counts other))"
proof (cases "word_counts other = []")
  case True
  then show ?thesis by (simp add: merge_counts_def keys_simps)
next
  case False
  with assms show ?thesis by (simp add: merge_counts_def set_keys_counter_update)
qed

lemma map_of_merge_built_disjoint:
  assumes "set ws1 \<inter> set ws2 = {}"
  shows "map_of (word_counts (merge_counts (snd (count_words init ws1)) (snd (count_words init ws2))))
           = map_of (Counter ws1) ++ map_of (Counter ws2)"
proof
  fix w
  let ?m = "merge_counts (snd (count_words init ws1)) (snd (count_words init ws2))"
  have d: "distinct (keys (word_counts (snd (count_words init ws2))))"
    by (simp add: word_counts_built distinct_keys_Counter)
  have k: "set (keys (word_counts ?m)) = set ws1 \<union> set ws2"
    using set_keys_merge_counts [OF d, of "snd (count_words init ws1)"]
    by (simp add: word_counts_built set_keys_Counter)
  have g: "dict_get (word_counts ?m) w 0 = int (count_list ws1 w) + int (count_list ws2 w)"
    using dict_get_merge_counts [OF d, of "snd (count_words init ws1)" w]
    by (simp add: word_counts_built dict_get_Counter)
  have lhs: "map_of (word_counts ?m) w =
      (if w \<in> set ws1 \<union> set ws2 then Some (int (count_list ws1 w) + int (count_list ws2 w)) else None)"
    using map_of_via_get [of "word_counts ?m" w] k g by simp
  show "map_of (word_counts ?m) w = (map_of (Counter ws1) ++ map_of (Counter ws2)) w"
  proof (cases "w \<in> set ws2")
    case True
    with assms have "w \<notin> set ws1" by blast
    then have "count_list ws1 w = 0" by (simp add: count_list_0_iff)
    with True lhs show ?thesis by (simp add: map_add_def map_of_Counter)
  next
    case False
    then have "count_list ws2 w = 0" by (simp add: count_list_0_iff)
    with False lhs show ?thesis by (simp add: map_add_def map_of_Counter)
  qed
qed

lemma count_words_replaces_state_nonempty:
  assumes "ws \<noteq> []"
  shows "word_counts (snd (count_words s ws)) = Counter ws \<and>
         map_of (word_counts (snd (count_words s ws))) =
           (\<lambda>w. if w \<in> set ws then Some (int (count_list ws w)) else None) \<and>
         total_words (snd (count_words s ws)) = int (length ws)"
  using assms by (auto simp: count_words_def map_of_Counter)

section \<open>Lowering a query\<close>











section \<open>The file loader's loop\<close>

lemma message_of_failed: "decoded e = None \<Longrightarrow> message_of e = LoadFailed (entry_name e)"
  by (auto simp: decoded_def message_of_def split: read_result.splits)

lemma item_of_simps:
  "decoded e = None \<Longrightarrow> item_of e = None"
  "decoded e = Some c \<Longrightarrow> item_of e = Some (entry_name e, c)"
  by (simp_all add: item_of_def)

lemma load_one_printable:
  "printable (message_of e) \<Longrightarrow>
   load_one printable txt_files msgs e =
     Inr (case decoded e of
            None \<Rightarrow> txt_files
          | Some c \<Rightarrow> dict_set txt_files (entry_name e) c,
          msgs @ [message_of e])"
  by (auto simp: load_one_def report_failure_def decoded_def message_of_def
        split: read_result.splits)

lemma load_loop_step:
  "printable (message_of e) \<Longrightarrow>
   load_loop printable acc msgs (e # es) =
     (case decoded e of
        None \<Rightarrow> load_loop printable acc (msgs @ [message_of e]) es
      | Some c \<Rightarrow> load_loop printable (dict_set acc (entry_name e) c) (msgs @ [message_of e]) es)"
  by (simp add: load_one_printable split: option.splits)

lemma keys_map_filter_item_of:
  "set (keys (List.map_filter item_of es)) \<subseteq> entry_name ` set es"
proof (induction es)
  case Nil
  show ?case by (simp add: List.map_filter_simps keys_simps)
next
  case (Cons e es)
  then show ?case
    by (cases "decoded e") (auto simp: List.map_filter_simps item_of_simps keys_simps)
qed

lemma load_loop_closed:
  "distinct (map entry_name es) \<Longrightarrow> set (keys acc) \<inter> entry_name ` set es = {} \<Longrightarrow>
   \<forall>e \<in> set es. printable (message_of e) \<Longrightarrow>
   load_loop printable acc msgs es =
     Inr (acc @ List.map_filter item_of es, msgs @ map message_of es)"
proof (induction es arbitrary: acc msgs)
  case Nil
  show ?case by (simp add: List.map_filter_simps)
next
  case (Cons e es)
  from Cons.prems have n: "entry_name e \<notin> set (keys acc)"
    and d: "distinct (map entry_name es)"
    and nn: "entry_name e \<notin> entry_name ` set es"
    and dj: "set (keys acc) \<inter> entry_name ` set es = {}"
    and p: "printable (message_of e)"
    and ps: "\<forall>e \<in> set es. printable (message_of e)"
    by auto
  show ?case
  proof (cases "decoded e")
    case None
    have "load_loop printable acc (msgs @ [message_of e]) es =
        Inr (acc @ List.map_filter item_of es, (msgs @ [message_of e]) @ map message_of es)"
      using d dj ps by (rule Cons.IH)
    with None p show ?thesis
      by (simp add: load_loop_step item_of_simps del: load_loop.simps)
  next
    case (Some c)
    from nn dj have dj': "set (keys (acc @ [(entry_name e, c)])) \<inter> entry_name ` set es = {}"
      by (auto simp: keys_simps)
    have ih: "load_loop printable (acc @ [(entry_name e, c)]) (msgs @ [message_of e]) es =
        Inr ((acc @ [(entry_name e, c)]) @ List.map_filter item_of es,
             (msgs @ [message_of e]) @ map message_of es)"
      using d dj' ps by (rule Cons.IH)
    from Some n p ih show ?thesis
      by (simp add: load_loop_step item_of_simps dict_set_new del: load_loop.simps)
  qed
qed

lemma map_of_map_filter_item_of:
  "distinct (map entry_name es) \<Longrightarrow> e \<in> set es \<Longrightarrow>
   map_of (List.map_filter item_of es) (entry_name e) = decoded e"
proof (induction es)
  case Nil
  then show ?case by simp
next
  case (Cons x es)
  from Cons.prems(1) have d: "distinct (map entry_name es)"
    and nx: "entry_name x \<notin> entry_name ` set es" by auto
  show ?case
  proof (cases "e = x")
    case True
    have "entry_name x \<notin> set (keys (List.map_filter item_of es))"
      using nx keys_map_filter_item_of [of es] by blast
    then have "map_of (List.map_filter item_of es) (entry_name x) = None"
      by (simp add: keys_def map_of_eq_None_iff)
    with True show ?thesis
      by (cases "decoded x") (simp_all add: List.map_filter_simps item_of_simps)
  next
    case False
    with Cons.prems(2) have e: "e \<in> set es" by simp
    with nx have "entry_name e \<noteq> entry_name x" by (metis imageI)
    with Cons.IH [OF d e] show ?thesis
      by (cases "decoded x") (simp_all add: List.map_filter_simps item_of_simps)
  qed
qed

lemma load_one_Inl:
  "load_one printable txt_files msgs e = Inl err \<Longrightarrow>
   err = PrintError (LoadFailed (entry_name e)) \<and> \<not> printable (LoadFailed (entry_name e))"
  by (auto simp: load_one_def report_failure_def split: read_result.splits if_splits)

lemma load_loop_Inl:
  "load_loop printable txt_files msgs es = Inl err \<Longrightarrow>
   \<exists>e \<in> set es. err = PrintError (LoadFailed (entry_name e)) \<and>
      \<not> printable (LoadFailed (entry_name e))"
proof (induction es arbitrary: txt_files msgs)
  case Nil
  then show ?case by simp
next
  case (Cons e es)
  show ?case
  proof (cases "load_one printable txt_files msgs e")
    case (Inl err')
    with Cons.prems have "err' = err" by simp
    with Inl load_one_Inl [of printable txt_files msgs e err] show ?thesis by simp
  next
    case (Inr r)
    obtain txt_files' msgs' where r: "r = (txt_files', msgs')" by (cases r)
    with Inr Cons.prems have "load_loop printable txt_files' msgs' es = Inl err" by simp
    then have "\<exists>e \<in> set es. err = PrintError (LoadFailed (entry_name e)) \<and>
        \<not> printable (LoadFailed (entry_name e))"
      by (rule Cons.IH)
    then show ?thesis by auto
  qed
qed

lemma load_txt_files_FileNotFoundError:
  "load_txt_files w loader d = Inl (FileNotFoundError d') \<longleftrightarrow>
     status w d = NoSuchPath \<and> d' = d"
proof (cases "status w d = NoSuchPath")
  case True
  then show ?thesis by (auto simp: load_txt_files_def)
next
  case False
  have "load_loop (can_print w) [] [] (glob_txt w d) \<noteq> Inl (FileNotFoundError d')"
    using load_loop_Inl [of "can_print w" "[]" "[]" "glob_txt w d" "FileNotFoundError d'"]
    by auto
  with False show ?thesis
    by (auto simp: load_txt_files_def split: sum.splits)
qed

lemma load_txt_files_Directory:
  assumes "status w d = Directory es" and "distinct (map entry_name es)"
    and "\<forall>e \<in> set (glob_txt w d). can_print w (message_of e)"
  shows "load_txt_files w loader d =
     Inr (List.map_filter item_of (glob_txt w d), map message_of (glob_txt w d),
          loader\<lparr>loaded_files := List.map_filter item_of (glob_txt w d)\<rparr>)"
proof -
  have "distinct (map entry_name (glob_txt w d))"
    using assms(1,2) by (simp add: glob_txt_def distinct_map_filter)
  then have "load_loop (can_print w) [] [] (glob_txt w d) =
      Inr ([] @ List.map_filter item_of (glob_txt w d), [] @ map message_of (glob_txt w d))"
    using _ assms(3) by (rule load_loop_closed) (simp add: keys_simps)
  with assms(1) show ?thesis by (simp add: load_txt_files_def)
qed

section \<open>Claims\<close>

text \<open>
  C1. For every token list \<open>ws\<close> and every prior state of the counter, the counts of
  the frequency table returned by \<^verbatim>\<open>count_words(ws)\<close> add up to \<open>len(ws)\<close>.
\<close>

theorem count_words_sum_eq_length:
  "sum_list (dict_values (fst (count_words s ws))) = int (length ws)"
proof (cases "ws = []")
  case True
  then show ?thesis by (simp add: count_words_def dict_values_def)
next
  case False
  then show ?thesis by (simp add: count_words_def sum_Counter)
qed

text \<open>
  C2. \<^verbatim>\<open>count_words(ws)\<close> is to replace any prior state by the table of \<open>ws\<close> and
  \<open>len(ws)\<close>. On a non-empty list it does (\<open>count_words_replaces_state_nonempty\<close>). On
  the empty list the method returns an empty Counter before it assigns anything: a
  counter that had counted \<^verbatim>\<open>['a']\<close> still holds \<^verbatim>\<open>{'a': 1}\<close> and \<open>total_words = 1\<close>
  after \<^verbatim>\<open>count_words([])\<close>, although the table of the empty list is empty and its
  length is 0.
\<close>

theorem count_words_empty_keeps_prior_state:
  "fst (count_words (snd (count_words init [''a''])) []) = [] \<and>
   word_counts (snd (count_words (snd (count_words init [''a''])) [])) = [(''a'', 1)] \<and>
   total_words (snd (count_words (snd (count_words init [''a''])) [])) = 1 \<and>
   Counter ([] :: string list) = [] \<and> int (length ([] :: string list)) = 0"
  by (simp add: count_words_def init_def Counter_def dict_get_def)

text \<open>
  C3. For a counter built from the token list \<open>ws\<close> and every \<open>n\<close>, the pairs returned by
  \<^verbatim>\<open>get_most_common(n)\<close> are in non-increasing order of count, and pairs with equal
  counts are in the order of the first occurrence of their words in \<open>ws\<close> (the sort is
  stable). The result holds the first \<open>n\<close> entries of that order (none for \<open>n \<le> 0\<close>),
  each a word of \<open>ws\<close> with its number of occurrences.
\<close>

theorem get_most_common_sorted_stable:
  "(let r = get_most_common (snd (count_words init ws)) n in
      sorted_wrt (\<lambda>p q. snd p \<ge> snd q) r \<and>
      (\<forall>i j. i < j \<and> j < length r \<and> snd (r ! i) = snd (r ! j) \<longrightarrow>
         first_index ws (fst (r ! i)) < first_index ws (fst (r ! j))) \<and>
      length r = min (nat n) (card (set ws)) \<and>
      (\<forall>p \<in> set r. fst p \<in> set ws \<and> snd p = int (count_list ws (fst p))))"
proof -
  define r where "r = most_common (Counter ws) n"
  have ord: "sorted_wrt (\<lambda>p q. snd q < snd p \<or>
       (snd p = snd q \<and> first_index ws (fst p) < first_index ws (fst q))) r"
    unfolding r_def by (rule most_common_Counter_order)
  have 1: "sorted_wrt (\<lambda>p q. snd p \<ge> snd q) r"
    using ord by (rule sorted_wrt_mono_rel [rotated]) auto
  have 2: "\<forall>i j. i < j \<and> j < length r \<and> snd (r ! i) = snd (r ! j) \<longrightarrow>
         first_index ws (fst (r ! i)) < first_index ws (fst (r ! j))"
  proof (intro allI impI)
    fix i j
    assume a: "i < j \<and> j < length r \<and> snd (r ! i) = snd (r ! j)"
    have "\<forall>i j. i < j \<longrightarrow> j < length r \<longrightarrow> snd (r ! j) < snd (r ! i) \<or>
       (snd (r ! i) = snd (r ! j) \<and> first_index ws (fst (r ! i)) < first_index ws (fst (r ! j)))"
      using ord unfolding sorted_wrt_iff_nth_less by blast
    with a have "snd (r ! j) < snd (r ! i) \<or>
       (snd (r ! i) = snd (r ! j) \<and> first_index ws (fst (r ! i)) < first_index ws (fst (r ! j)))"
      by blast
    with a show "first_index ws (fst (r ! i)) < first_index ws (fst (r ! j))"
      by (metis less_irrefl)
  qed
  have 3: "length r = min (nat n) (card (set ws))"
    by (simp add: r_def most_common_def length_Counter min.commute)
  have 4: "\<forall>p \<in> set r. fst p \<in> set ws \<and> snd p = int (count_list ws (fst p))"
  proof
    fix p assume "p \<in> set r"
    then have "p \<in> set (Counter ws)"
      by (auto simp: r_def most_common_def dest: in_set_takeD)
    then show "fst p \<in> set ws \<and> snd p = int (count_list ws (fst p))"
      by (rule Counter_item)
  qed
  have "get_most_common (snd (count_words init ws)) n = r"
    by (simp add: get_most_common_def word_counts_built r_def)
  with 1 2 3 4 show ?thesis by (simp add: Let_def)
qed

theorem get_most_common_sorted_stable_witness:
  "get_most_common (snd (count_words init [''b'', ''a'', ''c'', ''a'', ''c'', ''d''])) 3
     = [(''a'', 2), (''c'', 2), (''b'', 1)]
   \<and> first_index [''b'', ''a'', ''c'', ''a'', ''c'', ''d''] ''a'' = 1"
  using get_most_common_sorted_stable [of "[''b'', ''a'', ''c'', ''a'', ''c'', ''d'']" 3]
  by (simp add: get_most_common_def count_words_def init_def Counter_def most_common_def
        dict_get_def)

text \<open>
  C4. After \<^verbatim>\<open>a.merge_counts(b)\<close> the count of every word \<open>w\<close> in \<open>a\<close> is the sum of
  its previous counts in \<open>a\<close> and in \<open>b\<close> (a missing word counts 0, as \<^verbatim>\<open>Counter\<close>
  reads it); \<open>b\<close> is a dict, so it has no repeated key. In particular, for two counters
  built from token lists with no common word, the merged table is the union of the two
  tables.
\<close>

theorem merge_counts_sums_counts:
  assumes "distinct (keys (word_counts b))"
  shows "dict_get (word_counts (merge_counts a b)) w 0 =
           dict_get (word_counts a) w 0 + dict_get (word_counts b) w 0 \<and>
         (set ws1 \<inter> set ws2 = {} \<longrightarrow>
            map_of (word_counts
              (merge_counts (snd (count_words init ws1)) (snd (count_words init ws2))))
            = map_of (Counter ws1) ++ map_of (Counter ws2))"
  using dict_get_merge_counts [OF assms, of a w] map_of_merge_built_disjoint [of ws1 ws2]
  by blast

theorem merge_counts_sums_counts_witness:
  "distinct (keys (word_counts (snd (count_words init [''b'', ''c''])))) \<and>
   dict_get (word_counts (merge_counts (snd (count_words init [''a'', ''b'', ''a'']))
       (snd (count_words init [''b'', ''c''])))) ''b'' 0 = 2 \<and>
   dict_get (word_counts (snd (count_words init [''a'', ''b'', ''a'']))) ''b'' 0 = 1 \<and>
   dict_get (word_counts (snd (count_words init [''b'', ''c'']))) ''b'' 0 = 1 \<and>
   set [''a'', ''a''] \<inter> set [''c''] = {} \<and>
   map_of (word_counts (merge_counts (snd (count_words init [''a'', ''a'']))
       (snd (count_words init [''c'']))))
     = map_of (Counter [''a'', ''a'']) ++ map_of (Counter [''c''])"
proof -
  have d: "distinct (keys (word_counts (snd (count_words init [''b'', ''c'']))))"
    by (simp add: count_words_def init_def Counter_def keys_def dict_get_def)
  have j: "set [''a'', ''a''] \<inter> set [''c''] = {}" by simp
  have v: "dict_get (word_counts (snd (count_words init [''a'', ''b'', ''a'']))) ''b'' 0 = 1"
    "dict_get (word_counts (snd (count_words init [''b'', ''c'']))) ''b'' 0 = 1"
    by (simp_all add: count_words_def init_def Counter_def dict_get_def)
  from merge_counts_sums_counts [OF d, of "snd (count_words init [''a'', ''b'', ''a''])" "''b''"
      "[''a'', ''a'']" "[''c'']"] d j v
  show ?thesis by simp
qed

text \<open>
  C5. For every counter state (a dict, so without a repeated key) and every integer \<open>k\<close>,
  \<^verbatim>\<open>filter_by_frequency(min_freq=k, max_freq=None)\<close> returns exactly the entries of the
  table whose count is at least \<open>k\<close>, with their counts, in table order.
\<close>

theorem filter_by_frequency_min_exact:
  assumes "distinct (keys (word_counts s))"
  shows "filter_by_frequency s k None = filter (\<lambda>(word, count). k \<le> count) (word_counts s) \<and>
         set (filter_by_frequency s k None) = {(w, c). (w, c) \<in> set (word_counts s) \<and> k \<le> c}"
proof -
  have "filter_by_frequency s k None = filter (\<lambda>(word, count). k \<le> count) (word_counts s)"
    using filter_loop_append [of "word_counts s" "[]" k None] assms
    by (simp add: filter_by_frequency_def keys_simps)
  then show ?thesis by auto
qed

theorem filter_by_frequency_min_exact_witness:
  "distinct (keys (word_counts \<lparr>word_counts = [(''a'', 3), (''b'', 1), (''c'', 2)], total_words = 6\<rparr>)) \<and>
   filter_by_frequency \<lparr>word_counts = [(''a'', 3), (''b'', 1), (''c'', 2)], total_words = 6\<rparr> 2 None
     = [(''a'', 3), (''c'', 2)]"
proof -
  have d: "distinct (keys (word_counts \<lparr>word_counts = [(''a'', 3), (''b'', 1), (''c'', 2)], total_words = 6\<rparr>))"
    by (simp add: keys_def)
  from filter_by_frequency_min_exact [OF d, of 2] d show ?thesis by simp
qed

text \<open>
  C6. In every state a counter object reaches through its constructor and the methods
  \<^verbatim>\<open>count_words\<close>, \<^verbatim>\<open>merge_counts\<close> and \<^verbatim>\<open>clear\<close>, every count of the table is a
  non-negative integer and no word is a key twice.
\<close>

theorem reachable_counts_nonneg_keys_distinct:
  "reachable s \<Longrightarrow>
   (\<forall>c \<in> set (dict_values (word_counts s)). 0 \<le> c) \<and> distinct (keys (word_counts s))"
  using reachable_wf [of s] by (simp add: wf_counter_def)

theorem reachable_counts_nonneg_keys_distinct_witness:
  "reachable (merge_counts (snd (count_words init [''a'', ''b'', ''a''])) (snd (count_words init [''b'']))) \<and>
   word_counts (merge_counts (snd (count_words init [''a'', ''b'', ''a''])) (snd (count_words init [''b''])))
     = [(''a'', 2), (''b'', 2)] \<and>
   distinct (keys (word_counts
     (merge_counts (snd (count_words init [''a'', ''b'', ''a''])) (snd (count_words init [''b''])))))"
proof -
  have r: "reachable (merge_counts (snd (count_words init [''a'', ''b'', ''a'']))
      (snd (count_words init [''b''])))"
    by (intro reachable.intros)
  have v: "word_counts (merge_counts (snd (count_words init [''a'', ''b'', ''a'']))
      (snd (count_words init [''b'']))) = [(''a'', 2), (''b'', 2)]"
    by (simp add: merge_counts_def count_words_def init_def Counter_def counter_update_def
          dict_get_def)
  from reachable_counts_nonneg_keys_distinct [OF r] r v show ?thesis by simp
qed

text \<open>
  C7. For every word list \<open>ws\<close> and every tagger, \<^verbatim>\<open>filter_by_pos(ws)\<close> returns \<open>ws\<close>
  itself when the filter is disabled or has no allowed tag: in particular for a filter
  as constructed (enabled or not, it has no tag yet) and after \<^verbatim>\<open>disable_filter\<close>.
\<close>

theorem filter_by_pos_inert_identity:
  "(\<not> enabled f \<or> allowed_pos_tags f = {} \<longrightarrow> filter_by_pos pos_tag f ws = ws) \<and>
   filter_by_pos pos_tag (POSFilter e) ws = ws \<and>
   filter_by_pos pos_tag (disable_filter f) ws = ws"
  by (simp add: filter_by_pos_def POSFilter_def disable_filter_def)

theorem filter_by_pos_inert_identity_witness:
  "\<not> enabled \<lparr>enabled = False, allowed_pos_tags = {''NN''}\<rparr> \<and>
   filter_by_pos (\<lambda>ws. Some []) \<lparr>enabled = False, allowed_pos_tags = {''NN''}\<rparr>
     [''python'', ''quickly''] = [''python'', ''quickly''] \<and>
   allowed_pos_tags \<lparr>enabled = True, allowed_pos_tags = {}\<rparr> = {} \<and>
   filter_by_pos (\<lambda>ws. Some []) \<lparr>enabled = True, allowed_pos_tags = {}\<rparr>
     [''python'', ''quickly''] = [''python'', ''quickly''] \<and>
   filter_by_pos (\<lambda>ws. Some []) \<lparr>enabled = True, allowed_pos_tags = {''NN''}\<rparr>
     [''python'', ''quickly''] = []"
proof -
  have a: "\<not> enabled \<lparr>enabled = False, allowed_pos_tags = {''NN''}\<rparr>" by simp
  have b: "allowed_pos_tags \<lparr>enabled = True, allowed_pos_tags = {}\<rparr> = {}" by simp
  have c: "filter_by_pos (\<lambda>ws. Some []) \<lparr>enabled = True, allowed_pos_tags = {''NN''}\<rparr>
     [''python'', ''quickly''] = []"
    by (simp add: filter_by_pos_def)
  from filter_by_pos_inert_identity
      [where f = "\<lparr>enabled = False, allowed_pos_tags = {''NN''}\<rparr>"
         and pos_tag = "\<lambda>ws. Some []" and ws = "[''python'', ''quickly'']"] a
  have d: "filter_by_pos (\<lambda>ws. Some []) \<lparr>enabled = False, allowed_pos_tags = {''NN''}\<rparr>
     [''python'', ''quickly''] = [''python'', ''quickly'']"
    by blast
  from filter_by_pos_inert_identity
      [where f = "\<lparr>enabled = True, allowed_pos_tags = {}\<rparr>"
         and pos_tag = "\<lambda>ws. Some []" and ws = "[''python'', ''quickly'']"] b
  have e: "filter_by_pos (\<lambda>ws. Some []) \<lparr>enabled = True, allowed_pos_tags = {}\<rparr>
     [''python'', ''quickly''] = [''python'', ''quickly'']"
    by blast
  from a b c d e show ?thesis by blast
qed

text \<open>
  C8. \<^verbatim>\<open>load_txt_files(directory)\<close> raises \<^verbatim>\<open>FileNotFoundError\<close> exactly when the path
  does not exist; for a path that exists without being a directory it returns an empty
  result. For a directory (its entries have pairwise distinct names), when standard
  output accepts the message the loop prints for each \<^verbatim>\<open>.txt\<close> entry, the call
  returns: every \<^verbatim>\<open>.txt\<close> entry that decodes (as UTF-8, or as GBK after a UTF-8
  decoding error) is in the result under its name with its text; every \<^verbatim>\<open>.txt\<close>
  entry that cannot be read or decoded is absent from the result and has a failure
  message; nothing else is in the result, which is also what the loader keeps.

  As the claim has it, without the condition on standard output, this fails: the
  messages are printed inside the \<^verbatim>\<open>try\<close> and inside its handlers, and when the
  failure message cannot be printed its exception leaves the call although the
  directory exists.
\<close>

theorem load_txt_files_errors_local:
  "(load_txt_files w loader d = Inl (FileNotFoundError d) \<longleftrightarrow> status w d = NoSuchPath) \<and>
   (status w d = NotADirectory \<longrightarrow>
      load_txt_files w loader d = Inr ([], [], loader\<lparr>loaded_files := []\<rparr>)) \<and>
   (status w d = Directory es \<and> distinct (map entry_name es) \<and>
    (\<forall>e \<in> set es. matches_txt (case_sensitive w) (entry_name e) \<longrightarrow>
       can_print w (message_of e)) \<longrightarrow>
      (\<exists>txt_files msgs.
         load_txt_files w loader d = Inr (txt_files, msgs, loader\<lparr>loaded_files := txt_files\<rparr>) \<and>
         (\<forall>e \<in> set es. matches_txt (case_sensitive w) (entry_name e) \<longrightarrow>
            (case decoded e of
               Some c \<Rightarrow> map_of txt_files (entry_name e) = Some c
             | None \<Rightarrow> entry_name e \<notin> set (keys txt_files) \<and>
                        LoadFailed (entry_name e) \<in> set msgs)) \<and>
         set (keys txt_files) \<subseteq>
           entry_name ` {e \<in> set es. matches_txt (case_sensitive w) (entry_name e)}))"
proof (intro conjI impI)
  show "load_txt_files w loader d = Inl (FileNotFoundError d) \<longleftrightarrow> status w d = NoSuchPath"
    by (simp add: load_txt_files_FileNotFoundError)
next
  assume "status w d = NotADirectory"
  then show "load_txt_files w loader d = Inr ([], [], loader\<lparr>loaded_files := []\<rparr>)"
    by (simp add: load_txt_files_def glob_txt_def)
next
  assume a: "status w d = Directory es \<and> distinct (map entry_name es) \<and>
    (\<forall>e \<in> set es. matches_txt (case_sensitive w) (entry_name e) \<longrightarrow>
       can_print w (message_of e))"
  let ?es = "filter (\<lambda>e. matches_txt (case_sensitive w) (entry_name e)) es"
  let ?files = "List.map_filter item_of ?es"
  let ?msgs = "map message_of ?es"
  from a have g: "glob_txt w d = ?es" by (simp add: glob_txt_def)
  from a have dist: "distinct (map entry_name ?es)" by (simp add: distinct_map_filter)
  from a have pr: "\<forall>e \<in> set (glob_txt w d). can_print w (message_of e)" by (simp add: g)
  have run: "load_txt_files w loader d = Inr (?files, ?msgs, loader\<lparr>loaded_files := ?files\<rparr>)"
    using load_txt_files_Directory [of w d es loader] a pr by (simp add: g)
  have each: "\<forall>e \<in> set es. matches_txt (case_sensitive w) (entry_name e) \<longrightarrow>
      (case decoded e of
         Some c \<Rightarrow> map_of ?files (entry_name e) = Some c
       | None \<Rightarrow> entry_name e \<notin> set (keys ?files) \<and> LoadFailed (entry_name e) \<in> set ?msgs)"
  proof (intro ballI impI)
    fix e assume "e \<in> set es" and "matches_txt (case_sensitive w) (entry_name e)"
    then have e: "e \<in> set ?es" by simp
    have m: "map_of ?files (entry_name e) = decoded e"
      using dist e by (rule map_of_map_filter_item_of)
    show "case decoded e of
         Some c \<Rightarrow> map_of ?files (entry_name e) = Some c
       | None \<Rightarrow> entry_name e \<notin> set (keys ?files) \<and> LoadFailed (entry_name e) \<in> set ?msgs"
    proof (cases "decoded e")
      case (Some c)
      with m show ?thesis by simp
    next
      case None
      with m have "entry_name e \<notin> set (keys ?files)"
        by (simp add: keys_def map_of_eq_None_iff)
      moreover have "message_of e \<in> set ?msgs" using e by (simp del: set_filter)
      ultimately show ?thesis using None by (simp add: message_of_failed)
    qed
  qed
  have only: "set (keys ?files) \<subseteq>
      entry_name ` {e \<in> set es. matches_txt (case_sensitive w) (entry_name e)}"
    using keys_map_filter_item_of [of ?es] by simp
  from run each only
  show "\<exists>txt_files msgs.
         load_txt_files w loader d = Inr (txt_files, msgs, loader\<lparr>loaded_files := txt_files\<rparr>) \<and>
         (\<forall>e \<in> set es. matches_txt (case_sensitive w) (entry_name e) \<longrightarrow>
            (case decoded e of
               Some c \<Rightarrow> map_of txt_files (entry_name e) = Some c
             | None \<Rightarrow> entry_name e \<notin> set (keys txt_files) \<and>
                        LoadFailed (entry_name e) \<in> set msgs)) \<and>
         set (keys txt_files) \<subseteq>
           entry_name ` {e \<in> set es. matches_txt (case_sensitive w) (entry_name e)}"
    by blast
qed

theorem load_txt_files_errors_local_witness:
  "status \<lparr>status = (\<lambda>p. if p = ''docs'' then Directory
       [\<lparr>entry_name = ''a.txt'', read_utf8 = Content ''hi'', read_gbk = Content ''hi''\<rparr>,
      \<lparr>entry_name = ''b.txt'', read_utf8 = UnicodeDecodeError, read_gbk = Content ''ni''\<rparr>,
      \<lparr>entry_name = ''c.txt'', read_utf8 = OtherError ''denied'', read_gbk = Content ''no''\<rparr>,
      \<lparr>entry_name = ''d.txt'', read_utf8 = UnicodeDecodeError, read_gbk = UnicodeDecodeError\<rparr>,
      \<lparr>entry_name = ''e.md'', read_utf8 = Content ''md'', read_gbk = Content ''md''\<rparr>]
     else if p = ''notes.txt'' then NotADirectory else NoSuchPath),
    case_sensitive = True, can_print = (\<lambda>m. True)\<rparr> ''gone'' = NoSuchPath \<and>
   load_txt_files \<lparr>status = (\<lambda>p. if p = ''docs'' then Directory
       [\<lparr>entry_name = ''a.txt'', read_utf8 = Content ''hi'', read_gbk = Content ''hi''\<rparr>,
      \<lparr>entry_name = ''b.txt'', read_utf8 = UnicodeDecodeError, read_gbk = Content ''ni''\<rparr>,
      \<lparr>entry_name = ''c.txt'', read_utf8 = OtherError ''denied'', read_gbk = Content ''no''\<rparr>,
      \<lparr>entry_name = ''d.txt'', read_utf8 = UnicodeDecodeError, read_gbk = UnicodeDecodeError\<rparr>,
      \<lparr>entry_name = ''e.md'', read_utf8 = Content ''md'', read_gbk = Content ''md''\<rparr>]
     else if p = ''notes.txt'' then NotADirectory else NoSuchPath),
    case_sensitive = True, can_print = (\<lambda>m. True)\<rparr> \<lparr>loaded_files = []\<rparr> ''gone'' = Inl (FileNotFoundError ''gone'') \<and>
   status \<lparr>status = (\<lambda>p. if p = ''docs'' then Directory
       [\<lparr>entry_name = ''a.txt'', read_utf8 = Content ''hi'', read_gbk = Content ''hi''\<rparr>,
      \<lparr>entry_name = ''b.txt'', read_utf8 = UnicodeDecodeError, read_gbk = Content ''ni''\<rparr>,
      \<lparr>entry_name = ''c.txt'', read_utf8 = OtherError ''denied'', read_gbk = Content ''no''\<rparr>,
      \<lparr>entry_name = ''d.txt'', read_utf8 = UnicodeDecodeError, read_gbk = UnicodeDecodeError\<rparr>,
      \<lparr>entry_name = ''e.md'', read_utf8 = Content ''md'', read_gbk = Content ''md''\<rparr>]
     else if p = ''notes.txt'' then NotADirectory else NoSuchPath),
    case_sensitive = True, can_print = (\<lambda>m. True)\<rparr> ''notes.txt'' = NotADirectory \<and>
   load_txt_files \<lparr>status = (\<lambda>p. if p = ''docs'' then Directory
       [\<lparr>entry_name = ''a.txt'', read_utf8 = Content ''hi'', read_gbk = Content ''hi''\<rparr>,
      \<lparr>entry_name = ''b.txt'', read_utf8 = UnicodeDecodeError, read_gbk = Content ''ni''\<rparr>,
      \<lparr>entry_name = ''c.txt'', read_utf8 = OtherError ''denied'', read_gbk = Content ''no''\<rparr>,
      \<lparr>entry_name = ''d.txt'', read_utf8 = UnicodeDecodeError, read_gbk = UnicodeDecodeError\<rparr>,
      \<lparr>entry_name = ''e.md'', read_utf8 = Content ''md'', read_gbk = Content ''md''\<rparr>]
     else if p = ''notes.txt'' then NotADirectory else NoSuchPath),
    case_sensitive = True, can_print = (\<lambda>m. True)\<rparr> \<lparr>loaded_files = []\<rparr> ''notes.txt'' = Inr ([], [], \<lparr>loaded_files = []\<rparr>) \<and>
   distinct (map entry_name
     [\<lparr>entry_name = ''a.txt'', read_utf8 = Content ''hi'', read_gbk = Content ''hi''\<rparr>,
      \<lparr>entry_name = ''b.txt'', read_utf8 = UnicodeDecodeError, read_gbk = Content ''ni''\<rparr>,
      \<lparr>entry_name = ''c.txt'', read_utf8 = OtherError ''denied'', read_gbk = Content ''no''\<rparr>,
      \<lparr>entry_name = ''d.txt'', read_utf8 = UnicodeDecodeError, read_gbk = UnicodeDecodeError\<rparr>,
      \<lparr>entry_name = ''e.md'', read_utf8 = Content ''md'', read_gbk = Content ''md''\<rparr>]) \<and>
   (\<exists>txt_files msgs.
      load_txt_files \<lparr>status = (\<lambda>p. if p = ''docs'' then Directory
       [\<lparr>entry_name = ''a.txt'', read_utf8 = Content ''hi'', read_gbk = Content ''hi''\<rparr>,
      \<lparr>entry_name = ''b.txt'', read_utf8 = UnicodeDecodeError, read_gbk = Content ''ni''\<rparr>,
      \<lparr>entry_name = ''c.txt'', read_utf8 = OtherError ''denied'', read_gbk = Content ''no''\<rparr>,
      \<lparr>entry_name = ''d.txt'', read_utf8 = UnicodeDecodeError, read_gbk = UnicodeDecodeError\<rparr>,
      \<lparr>entry_name = ''e.md'', read_utf8 = Content ''md'', read_gbk = Content ''md''\<rparr>]
     else if p = ''notes.txt'' then NotADirectory else NoSuchPath),
    case_sensitive = True, can_print = (\<lambda>m. True)\<rparr> \<lparr>loaded_files = []\<rparr> ''docs'' =
        Inr (txt_files, msgs, \<lparr>loaded_files = []\<rparr>\<lparr>loaded_files := txt_files\<rparr>) \<and>
      map_of txt_files ''b.txt'' = Some ''ni'' \<and>
      ''c.txt'' \<notin> set (keys txt_files) \<and> LoadFailed ''c.txt'' \<in> set msgs) \<and>
   load_txt_files \<lparr>status = (\<lambda>p. if p = ''docs'' then Directory
       [\<lparr>entry_name = ''a.txt'', read_utf8 = Content ''hi'', read_gbk = Content ''hi''\<rparr>,
      \<lparr>entry_name = ''b.txt'', read_utf8 = UnicodeDecodeError, read_gbk = Content ''ni''\<rparr>,
      \<lparr>entry_name = ''c.txt'', read_utf8 = OtherError ''denied'', read_gbk = Content ''no''\<rparr>,
      \<lparr>entry_name = ''d.txt'', read_utf8 = UnicodeDecodeError, read_gbk = UnicodeDecodeError\<rparr>,
      \<lparr>entry_name = ''e.md'', read_utf8 = Content ''md'', read_gbk = Content ''md''\<rparr>]
     else if p = ''notes.txt'' then NotADirectory else NoSuchPath),
    case_sensitive = True, can_print = (\<lambda>m. True)\<rparr> \<lparr>loaded_files = []\<rparr> ''docs'' =
     Inr ([(''a.txt'', ''hi''), (''b.txt'', ''ni'')],
          [Loaded ''a.txt'', LoadedGBK ''b.txt'', LoadFailed ''c.txt'', LoadFailed ''d.txt''],
          \<lparr>loaded_files = [(''a.txt'', ''hi''), (''b.txt'', ''ni'')]\<rparr>)"
proof -
  let ?w = "\<lparr>status = (\<lambda>p. if p = ''docs'' then Directory
       [\<lparr>entry_name = ''a.txt'', read_utf8 = Content ''hi'', read_gbk = Content ''hi''\<rparr>,
      \<lparr>entry_name = ''b.txt'', read_utf8 = UnicodeDecodeError, read_gbk = Content ''ni''\<rparr>,
      \<lparr>entry_name = ''c.txt'', read_utf8 = OtherError ''denied'', read_gbk = Content ''no''\<rparr>,
      \<lparr>entry_name = ''d.txt'', read_utf8 = UnicodeDecodeError, read_gbk = UnicodeDecodeError\<rparr>,
      \<lparr>entry_name = ''e.md'', read_utf8 = Content ''md'', read_gbk = Content ''md''\<rparr>]
     else if p = ''notes.txt'' then NotADirectory else NoSuchPath),
    case_sensitive = True, can_print = (\<lambda>m. True)\<rparr>"
  let ?es = "[\<lparr>entry_name = ''a.txt'', read_utf8 = Content ''hi'', read_gbk = Content ''hi''\<rparr>,
      \<lparr>entry_name = ''b.txt'', read_utf8 = UnicodeDecodeError, read_gbk = Content ''ni''\<rparr>,
      \<lparr>entry_name = ''c.txt'', read_utf8 = OtherError ''denied'', read_gbk = Content ''no''\<rparr>,
      \<lparr>entry_name = ''d.txt'', read_utf8 = UnicodeDecodeError, read_gbk = UnicodeDecodeError\<rparr>,
      \<lparr>entry_name = ''e.md'', read_utf8 = Content ''md'', read_gbk = Content ''md''\<rparr>]"
  let ?b = "\<lparr>entry_name = ''b.txt'', read_utf8 = UnicodeDecodeError, read_gbk = Content ''ni''\<rparr>"
  let ?c = "\<lparr>entry_name = ''c.txt'', read_utf8 = OtherError ''denied'', read_gbk = Content ''no''\<rparr>"
  have n: "status ?w ''gone'' = NoSuchPath" by simp
  have e: "load_txt_files ?w \<lparr>loaded_files = []\<rparr> ''gone'' = Inl (FileNotFoundError ''gone'')"
    using load_txt_files_errors_local [where w = ?w and loader = "\<lparr>loaded_files = []\<rparr>" and d = "''gone''"] n
    by blast
  have f: "status ?w ''notes.txt'' = NotADirectory" by simp
  have f': "load_txt_files ?w \<lparr>loaded_files = []\<rparr> ''notes.txt'' = Inr ([], [], \<lparr>loaded_files = []\<rparr>\<lparr>loaded_files := []\<rparr>)"
    using load_txt_files_errors_local [where w = ?w and loader = "\<lparr>loaded_files = []\<rparr>" and d = "''notes.txt''"] f
    by blast
  have d: "distinct (map entry_name ?es)" by simp
  have h: "status ?w ''docs'' = Directory ?es \<and> distinct (map entry_name ?es) \<and>
      (\<forall>e \<in> set ?es. matches_txt (case_sensitive ?w) (entry_name e) \<longrightarrow>
         can_print ?w (message_of e))"
    by simp
  have b: "?b \<in> set ?es" "matches_txt (case_sensitive ?w) (entry_name ?b)"
      "decoded ?b = Some ''ni''"
    by (simp_all add: matches_txt_def decoded_def)
  have c: "?c \<in> set ?es" "matches_txt (case_sensitive ?w) (entry_name ?c)" "decoded ?c = None"
    by (simp_all add: matches_txt_def decoded_def)
  from load_txt_files_errors_local
      [where w = ?w and loader = "\<lparr>loaded_files = []\<rparr>" and d = "''docs''" and es = ?es] h
  obtain txt_files msgs where
    run: "load_txt_files ?w \<lparr>loaded_files = []\<rparr> ''docs'' = Inr (txt_files, msgs, \<lparr>loaded_files = []\<rparr>\<lparr>loaded_files := txt_files\<rparr>)"
    and each: "\<forall>e \<in> set ?es. matches_txt (case_sensitive ?w) (entry_name e) \<longrightarrow>
            (case decoded e of
               Some c \<Rightarrow> map_of txt_files (entry_name e) = Some c
             | None \<Rightarrow> entry_name e \<notin> set (keys txt_files) \<and>
                        LoadFailed (entry_name e) \<in> set msgs)"
    by blast
  from each b(1,2) have "case decoded ?b of
               Some c \<Rightarrow> map_of txt_files (entry_name ?b) = Some c
             | None \<Rightarrow> entry_name ?b \<notin> set (keys txt_files) \<and>
                        LoadFailed (entry_name ?b) \<in> set msgs"
    by blast
  with b(3) have fb: "map_of txt_files ''b.txt'' = Some ''ni''" by simp
  from each c(1,2) have "case decoded ?c of
               Some x \<Rightarrow> map_of txt_files (entry_name ?c) = Some x
             | None \<Rightarrow> entry_name ?c \<notin> set (keys txt_files) \<and>
                        LoadFailed (entry_name ?c) \<in> set msgs"
    by blast
  with c(3) have fc: "''c.txt'' \<notin> set (keys txt_files) \<and> LoadFailed ''c.txt'' \<in> set msgs"
    by simp
  have r: "load_txt_files ?w \<lparr>loaded_files = []\<rparr> ''docs'' =
     Inr ([(''a.txt'', ''hi''), (''b.txt'', ''ni'')],
          [Loaded ''a.txt'', LoadedGBK ''b.txt'', LoadFailed ''c.txt'', LoadFailed ''d.txt''],
          \<lparr>loaded_files = [(''a.txt'', ''hi''), (''b.txt'', ''ni'')]\<rparr>)"
    by (simp add: load_txt_files_def glob_txt_def matches_txt_def load_one_def
          report_failure_def)
  from run fb fc have x: "\<exists>txt_files msgs.
      load_txt_files ?w \<lparr>loaded_files = []\<rparr> ''docs'' =
        Inr (txt_files, msgs, \<lparr>loaded_files = []\<rparr>\<lparr>loaded_files := txt_files\<rparr>) \<and>
      map_of txt_files ''b.txt'' = Some ''ni'' \<and>
      ''c.txt'' \<notin> set (keys txt_files) \<and> LoadFailed ''c.txt'' \<in> set msgs"
    by blast
  from n e f f' d x r show ?thesis by simp
qed

text \<open>
  The claim without the condition on standard output: the directory exists and its one
  file decodes, standard output accepts no message, and the call raises.
\<close>

theorem load_txt_files_print_fails_counterexample:
  "status \<lparr>status = (\<lambda>p. if p = ''docs'' then Directory
       [\<lparr>entry_name = ''a.txt'', read_utf8 = Content ''hi'', read_gbk = Content ''hi''\<rparr>]
     else NoSuchPath),
    case_sensitive = True, can_print = (\<lambda>m. False)\<rparr> ''docs'' =
     Directory [\<lparr>entry_name = ''a.txt'', read_utf8 = Content ''hi'', read_gbk = Content ''hi''\<rparr>] \<and>
   decoded \<lparr>entry_name = ''a.txt'', read_utf8 = Content ''hi'', read_gbk = Content ''hi''\<rparr>
     = Some ''hi'' \<and>
   load_txt_files \<lparr>status = (\<lambda>p. if p = ''docs'' then Directory
       [\<lparr>entry_name = ''a.txt'', read_utf8 = Content ''hi'', read_gbk = Content ''hi''\<rparr>]
     else NoSuchPath),
    case_sensitive = True, can_print = (\<lambda>m. False)\<rparr> \<lparr>loaded_files = []\<rparr> ''docs'' = Inl (PrintError (LoadFailed ''a.txt''))"
  by (simp add: load_txt_files_def glob_txt_def matches_txt_def load_one_def
        report_failure_def decoded_def)




text \<open>
  C10. The invariant \<open>total_words = sum of the counts\<close> holds for a new counter and is
  kept by \<^verbatim>\<open>count_words\<close>, \<^verbatim>\<open>merge_counts\<close> (when the other counter satisfies it too)
  and \<^verbatim>\<open>clear\<close>; hence in every reachable state \<^verbatim>\<open>get_total_words\<close> is the sum of the
  table's counts.
\<close>

theorem total_words_is_sum_of_counts:
  "total_inv (init :: 'w word_counter) \<and>
   (total_inv (s :: 'w word_counter) \<longrightarrow> total_inv (snd (count_words s ws))) \<and>
   (total_inv s \<and> total_inv other \<and> distinct (keys (word_counts other)) \<longrightarrow>
      total_inv (merge_counts s other)) \<and>
   total_inv (clear s) \<and>
   (reachable s \<longrightarrow> get_total_words s = sum_list (dict_values (word_counts s)))"
proof -
  have "reachable s \<longrightarrow> get_total_words s = sum_list (dict_values (word_counts s))"
    using reachable_total_inv [of s] by (simp add: total_inv_def get_total_words_def)
  then show ?thesis
    using total_inv_init total_inv_count_words [of s ws] total_inv_merge_counts [of s other]
      total_inv_clear [of s]
    by blast
qed

theorem total_words_is_sum_of_counts_witness:
  "total_inv (snd (count_words init [''a'', ''b'', ''a''])) \<and>
   total_inv (snd (count_words init [''b''])) \<and>
   distinct (keys (word_counts (snd (count_words init [''b''])))) \<and>
   reachable (merge_counts (snd (count_words init [''a'', ''b'', ''a''])) (snd (count_words init [''b'']))) \<and>
   total_inv (merge_counts (snd (count_words init [''a'', ''b'', ''a''])) (snd (count_words init [''b'']))) \<and>
   get_total_words (merge_counts (snd (count_words init [''a'', ''b'', ''a''])) (snd (count_words init [''b''])))
     = 4 \<and>
   dict_values (word_counts
     (merge_counts (snd (count_words init [''a'', ''b'', ''a''])) (snd (count_words init [''b'']))))
     = [2, 2]"
proof -
  have r: "reachable (merge_counts (snd (count_words init [''a'', ''b'', ''a'']))
      (snd (count_words init [''b''])))"
    by (intro reachable.intros)
  have v: "word_counts (merge_counts (snd (count_words init [''a'', ''b'', ''a'']))
      (snd (count_words init [''b'']))) = [(''a'', 2), (''b'', 2)]"
    by (simp add: merge_counts_def count_words_def init_def Counter_def counter_update_def
          dict_get_def)
  have d: "distinct (keys (word_counts (snd (count_words init [''b'']))))"
    by (simp add: count_words_def init_def Counter_def keys_def)
  have a: "total_inv (snd (count_words init [''a'', ''b'', ''a'']))"
    using total_words_is_sum_of_counts [of init "[''a'', ''b'', ''a'']"] by simp
  have b: "total_inv (snd (count_words init [''b'']))"
    using total_words_is_sum_of_counts [of init "[''b'']"] by simp
  have m: "total_inv (merge_counts (snd (count_words init [''a'', ''b'', ''a'']))
      (snd (count_words init [''b''])))"
    using total_words_is_sum_of_counts
      [of "snd (count_words init [''a'', ''b'', ''a''])" _ "snd (count_words init [''b''])"] a b d
    by simp
  from total_words_is_sum_of_counts
    [of "merge_counts (snd (count_words init [''a'', ''b'', ''a''])) (snd (count_words init [''b'']))"]
    r v a b d m show ?thesis by (simp add: dict_values_def)
qed

end
